theory Spec2Isabelle
  imports Complex_Main
begin

section \<open>The file-selection hook \<open>useFileHandler\<close> and the \<open>FileInput\<close> size formatter\<close>

text \<open>
  The model follows \<^verbatim>\<open>useFileHandler.ts\<close> (the hook) and \<^verbatim>\<open>FileInput.tsx\<close> (the
  component) function by function.

  \<^item> A JavaScript number that holds a byte count is a natural number; \<open>maxFiles\<close> and
    list indices are integers (the source compares and subtracts them, so zero and
    negative values keep their meaning). Byte counts below \<open>2^53\<close> are exact doubles, and
    dividing one by a power of two is exact as well, so the quotient is modelled as a
    rational number.
  \<^item> The browser, React and the caller's callbacks are made explicit: every call of
    \<^verbatim>\<open>URL.createObjectURL\<close>, \<^verbatim>\<open>URL.revokeObjectURL\<close>, \<^verbatim>\<open>onFilesChanged\<close> and
    \<^verbatim>\<open>onFilesRejected\<close> is an entry of an event list, in the order the source makes them.
\<close>

subsection \<open>Strings\<close>

text \<open>\<^verbatim>\<open>String.prototype.startsWith\<close> and \<^verbatim>\<open>String.prototype.includes\<close>.\<close>

definition str_startsWith :: "string \<Rightarrow> string \<Rightarrow> bool" where
  "str_startsWith s p = (take (length p) s = p)"

fun str_includes :: "string \<Rightarrow> string \<Rightarrow> bool" where
  "str_includes [] k = (k = [])"
| "str_includes (c # cs) k = (str_startsWith (c # cs) k \<or> str_includes cs k)"

text \<open>Decimal digits of a natural number, as a template literal prints an integer.\<close>

fun digits :: "nat \<Rightarrow> string" where
  "digits n = (if n < 10 then [''0123456789'' ! n]
               else digits (n div 10) @ [''0123456789'' ! (n mod 10)])"

declare digits.simps [simp del]

definition intToString :: "int \<Rightarrow> string" where
  "intToString i = (if i < 0 then ''-'' @ digits (nat (- i)) else digits (nat i))"

text \<open>
  \<^verbatim>\<open>Number::toString\<close> on a non-negative number with at most one decimal digit after the
  point (the only numbers \<open>bytesToUnit\<close> returns): \<open>5\<close> prints as \<open>5\<close>, \<open>1.5\<close> as \<open>1.5\<close>.
\<close>

definition numberToString :: "rat \<Rightarrow> string" where
  "numberToString x =
     (let n = nat \<lfloor>x * 10\<rfloor>
      in digits (n div 10) @ (if n mod 10 = 0 then [] else ''.'' @ digits (n mod 10)))"

definition dq :: string where
  "dq = [CHR 0x22]"

subsection \<open>File types and byte units\<close>

datatype FileType = Audio | Image | Text | Video

fun FileType_value :: "FileType \<Rightarrow> string" where
  "FileType_value Audio = ''audio/*''"
| "FileType_value Image = ''image/*''"
| "FileType_value Text = ''text/*''"
| "FileType_value Video = ''video/*''"

datatype ByteUnit = MB | GB

fun ByteUnit_value :: "ByteUnit \<Rightarrow> string" where
  "ByteUnit_value MB = ''MB''"
| "ByteUnit_value GB = ''GB''"

text \<open>
  \<^verbatim>\<open>toFixed(1)\<close> yields the decimal string \<open>d.d\<close> whose number of tenths \<open>n\<close> makes
  \<open>n / 10 - x\<close> as close to zero as possible, the larger \<open>n\<close> on a tie (ECMAScript,
  Number.prototype.toFixed, for \<open>0 \<le> x < 10^21\<close>). The string is represented by \<open>n\<close>;
  \<^verbatim>\<open>parseFloat\<close> reads it back as the number \<open>n / 10\<close>.
\<close>

definition toFixed1 :: "rat \<Rightarrow> int" where
  "toFixed1 x = \<lfloor>x * 10 + 1 / 2\<rfloor>"

definition parseFloat1 :: "int \<Rightarrow> rat" where
  "parseFloat1 n = of_int n / 10"

definition bytesToUnit :: "nat \<Rightarrow> ByteUnit \<Rightarrow> rat" where
  "bytesToUnit bytes unit =
     (case unit of
        MB \<Rightarrow> (let mb = of_nat bytes / (1024 * 1024) in parseFloat1 (toFixed1 mb))
      | GB \<Rightarrow> (let gb = of_nat bytes / (1024 * 1024 * 1024) in parseFloat1 (toFixed1 gb)))"

definition getAppropriateUnit :: "nat \<Rightarrow> ByteUnit" where
  "getAppropriateUnit bytes = (if bytes \<ge> 1024 * 1024 * 1024 then GB else MB)"

text \<open>\<open>bytesToMB\<close> of \<^verbatim>\<open>FileInput.tsx\<close>.\<close>

definition bytesToMB :: "nat \<Rightarrow> rat" where
  "bytesToMB bytes = (let mb = of_nat bytes / (1024 * 1024) in parseFloat1 (toFixed1 mb))"

text \<open>
  \<open>mapType\<close>: the keys of \<open>typeMap\<close> are visited in insertion order and the first key
  that occurs in the mime string decides.
\<close>

definition typeMap :: "(string \<times> FileType) list" where
  "typeMap =
     [(''application'', Text), (''text'', Text), (''image'', Image),
      (''audio'', Audio), (''video'', Video)]"

fun mapType_loop :: "(string \<times> FileType) list \<Rightarrow> string \<Rightarrow> FileType" where
  "mapType_loop [] type = Image"
| "mapType_loop ((key, v) # rest) type =
     (if str_includes type key then v else mapType_loop rest type)"

definition mapType :: "string \<Rightarrow> FileType" where
  "mapType type = mapType_loop typeMap type"

subsection \<open>Files, configuration, events\<close>

text \<open>
  A browser \<open>File\<close>, as the elements of a \<open>FileList\<close> are: what its accessors \<open>name\<close>,
  \<open>size\<close> and \<open>type\<close> return.
\<close>

record File =
  fname :: string
  fsize :: nat
  ftype :: string

text \<open>
  An entry of \<open>files\<close> is an object typed \<open>FileWithPreview\<close>. What the code can read
  from it: the own properties \<open>name\<close>, \<open>size\<close>, \<open>type\<close>, \<open>preview\<close> and \<open>error\<close>
  (each may be absent), and, when the object is itself a browser \<open>File\<close>, the values its
  prototype accessors return (\<open>inherited\<close>).
\<close>

record FileWithPreview =
  ownName :: "string option"
  ownSize :: "nat option"
  ownType :: "string option"
  inherited :: "File option"
  preview :: "string option"
  error :: "string option"

text \<open>
  The object spread \<^verbatim>\<open>{ ...file }\<close> copies the own enumerable properties of its
  operand. On a browser \<open>File\<close> the properties \<open>name\<close>, \<open>size\<close> and \<open>type\<close> are
  accessors of the prototype, so the copy has none of them: it is an object without
  properties. On an entry, the own properties are copied and the prototype is left
  behind.
\<close>

definition spread :: "File \<Rightarrow> FileWithPreview" where
  "spread file =
     \<lparr>ownName = None, ownSize = None, ownType = None, inherited = None,
      preview = None, error = None\<rparr>"

definition spreadEntry :: "FileWithPreview \<Rightarrow> FileWithPreview" where
  "spreadEntry file = file\<lparr>inherited := None\<rparr>"

text \<open>Reading \<^verbatim>\<open>file.type\<close> from an entry: the own property, else the accessor.\<close>

definition typeOf :: "FileWithPreview \<Rightarrow> string option" where
  "typeOf file =
     (case ownType file of
        Some t \<Rightarrow> Some t
      | None \<Rightarrow> (case inherited file of Some f \<Rightarrow> Some (ftype f) | None \<Rightarrow> None))"

text \<open>
  The hook's props. \<open>onFilesChanged\<close> is mandatory and appears as an event;
  \<open>onFilesRejected\<close> is optional, the field says whether the caller supplied it.
  \<open>currentFiles\<close> reaches the hook through the adoption effect below.
\<close>

record UseFileHandlerProps =
  maxFiles :: int
  maxSize :: nat
  acceptedType :: string
  onFilesRejected :: bool

datatype event =
    CreateObjectURL string
  | RevokeObjectURL string
  | OnFilesChanged "FileWithPreview list"
  | OnFilesRejected "FileWithPreview list"

text \<open>
  The hook's two state cells, and the browser's supply of object URLs: the \<open>n\<close>-th call
  of \<^verbatim>\<open>URL.createObjectURL\<close> returns a URL no earlier call returned.
\<close>

record hook =
  files :: "FileWithPreview list"
  errors :: "string list"
  nextUrl :: nat

definition createObjectURL :: "nat \<Rightarrow> string" where
  "createObjectURL n = ''blob:'' @ digits n"

definition initial :: hook where
  "initial = \<lparr>files = [], errors = [], nextUrl = 0\<rparr>"

text \<open>
  What one call of a handler does: the state it leaves, the external calls it made, and
  whether it called \<open>setFiles\<close> (always with a freshly built array).
\<close>

record outcome =
  state :: hook
  events :: "event list"
  setFilesCalled :: bool

subsection \<open>Validation\<close>

definition validateFile :: "UseFileHandlerProps \<Rightarrow> File \<Rightarrow> string option" where
  "validateFile p file =
     (if fsize file > maxSize p then
        (let unit = getAppropriateUnit (maxSize p);
             maxSizeFormatted = bytesToUnit (maxSize p) unit
         in Some (''The file '' @ dq @ fname file @ dq @ '' exceeds the maximum size of ''
                  @ numberToString maxSizeFormatted @ '' '' @ ByteUnit_value unit @ ''.''))
      else
        (let mappedType = mapType (ftype file)
         in if FileType_value mappedType \<noteq> acceptedType p
            then Some (''The file type '' @ dq @ ftype file @ dq @ '' is not accepted.'')
            else None))"

record validation =
  acceptedFiles :: "FileWithPreview list"
  rejectedFiles :: "FileWithPreview list"
  errorMessages :: "string list"
  urlCounter :: nat
  urlEvents :: "event list"

text \<open>The body of the \<^verbatim>\<open>forEach\<close> in \<open>validateSelectedFiles\<close>.\<close>

definition validateStep :: "UseFileHandlerProps \<Rightarrow> validation \<Rightarrow> File \<Rightarrow> validation" where
  "validateStep p v file =
     (let fileWithPreview = spread file
      in case validateFile p file of
           Some e \<Rightarrow>
             v\<lparr>rejectedFiles := rejectedFiles v @ [fileWithPreview\<lparr>error := Some e\<rparr>],
               errorMessages := errorMessages v @ [e]\<rparr>
         | None \<Rightarrow>
             if str_startsWith (ftype file) ''image/''
             then v\<lparr>acceptedFiles := acceptedFiles v
                       @ [fileWithPreview\<lparr>preview := Some (createObjectURL (urlCounter v))\<rparr>],
                     urlCounter := urlCounter v + 1,
                     urlEvents := urlEvents v @ [CreateObjectURL (createObjectURL (urlCounter v))]\<rparr>
             else v\<lparr>acceptedFiles := acceptedFiles v @ [fileWithPreview]\<rparr>)"

definition validateSelectedFiles ::
    "UseFileHandlerProps \<Rightarrow> nat \<Rightarrow> File list \<Rightarrow> validation" where
  "validateSelectedFiles p n selectedFiles =
     foldl (validateStep p)
       \<lparr>acceptedFiles = [], rejectedFiles = [], errorMessages = [],
        urlCounter = n, urlEvents = []\<rparr>
       selectedFiles"

text \<open>
  The entry that the accepting branch of the loop pushes for a file when the next unused
  URL is the \<open>k\<close>-th.
\<close>

definition acceptedEntry :: "File \<Rightarrow> nat \<Rightarrow> FileWithPreview" where
  "acceptedEntry file k =
     (if str_startsWith (ftype file) ''image/''
      then (spread file)\<lparr>preview := Some (createObjectURL k)\<rparr>
      else spread file)"

subsection \<open>Previews and the count policy\<close>

text \<open>
  The truthiness of an optional string: \<^verbatim>\<open>undefined\<close> and the empty string are falsy.
  \<open>revokePreview\<close> is the body of the \<^verbatim>\<open>forEach\<close> in \<open>revokePreviews\<close> (and the
  guarded call in \<open>removeFile\<close>).
\<close>

definition truthy :: "string option \<Rightarrow> bool" where
  "truthy s = (case s of None \<Rightarrow> False | Some u \<Rightarrow> u \<noteq> [])"

definition revokePreview :: "FileWithPreview \<Rightarrow> event list" where
  "revokePreview file =
     (if truthy (preview file)
      then (case preview file of None \<Rightarrow> [] | Some u \<Rightarrow> [RevokeObjectURL u])
      else [])"

definition revokePreviews :: "FileWithPreview list \<Rightarrow> event list" where
  "revokePreviews fileList = concat (map revokePreview fileList)"

definition getNewFiles ::
    "UseFileHandlerProps \<Rightarrow> FileWithPreview list \<Rightarrow> FileWithPreview list
       \<Rightarrow> FileWithPreview list option \<times> event list" where
  "getNewFiles p fs accepted =
     (if maxFiles p = 1 then (Some (take (nat (maxFiles p)) accepted), revokePreviews fs)
      else
        (let totalFiles = int (length fs) + int (length accepted)
         in if totalFiles > maxFiles p then
              (let numToAdd = maxFiles p - int (length fs)
               in if numToAdd > 0 then (Some (fs @ take (nat numToAdd) accepted), [])
                  else (None, []))
            else (Some (fs @ accepted), [])))"

definition maxFilesError :: "UseFileHandlerProps \<Rightarrow> string" where
  "maxFilesError p = ''You can upload a maximum of '' @ intToString (maxFiles p) @ '' file(s).''"

definition annotate :: "FileWithPreview \<Rightarrow> FileWithPreview" where
  "annotate file = file\<lparr>error := Some ''Exceeded the maximum number of allowed files.''\<rparr>"

definition rejectedCall :: "UseFileHandlerProps \<Rightarrow> validation \<Rightarrow> event list" where
  "rejectedCall p v =
     (if rejectedFiles v \<noteq> [] \<and> onFilesRejected p then [OnFilesRejected (rejectedFiles v)]
      else [])"

subsection \<open>The handlers\<close>

definition handleFiles :: "UseFileHandlerProps \<Rightarrow> hook \<Rightarrow> File list \<Rightarrow> outcome" where
  "handleFiles p st selectedFiles =
     (let v = validateSelectedFiles p (nextUrl st) selectedFiles;
          st1 = st\<lparr>errors := errorMessages v, nextUrl := urlCounter v\<rparr>
      in if acceptedFiles v \<noteq> [] then
           (case getNewFiles p (files st) (acceptedFiles v) of
              (Some newFiles, revoked) \<Rightarrow>
                \<lparr>state = st1\<lparr>files := newFiles\<rparr>,
                 events = urlEvents v @ revoked @ [OnFilesChanged newFiles] @ rejectedCall p v,
                 setFilesCalled = True\<rparr>
            | (None, revoked) \<Rightarrow>
                \<lparr>state = st1\<lparr>errors := errors st1 @ [maxFilesError p]\<rparr>,
                 events = urlEvents v @ revoked
                   @ (if onFilesRejected p
                      then [OnFilesRejected (map annotate (acceptedFiles v))] else []),
                 setFilesCalled = False\<rparr>)
         else \<lparr>state = st1, events = urlEvents v @ rejectedCall p v, setFilesCalled = False\<rparr>)"

text \<open>
  \<^verbatim>\<open>files[index]\<close> is \<^verbatim>\<open>undefined\<close> outside the array, and
  \<^verbatim>\<open>files.filter((_, i) => i !== index)\<close> always builds a new array.
\<close>

definition fileAt :: "FileWithPreview list \<Rightarrow> int \<Rightarrow> FileWithPreview option" where
  "fileAt fs index =
     (if 0 \<le> index \<and> index < int (length fs) then Some (fs ! nat index) else None)"

definition filterIndex :: "FileWithPreview list \<Rightarrow> int \<Rightarrow> FileWithPreview list" where
  "filterIndex fs index = map snd (filter (\<lambda>(i, f). int i \<noteq> index) (enumerate 0 fs))"

definition removeFile :: "hook \<Rightarrow> int \<Rightarrow> outcome" where
  "removeFile st index =
     (let fileToRemove = fileAt (files st) index;
          revoked = (case fileToRemove of None \<Rightarrow> [] | Some f \<Rightarrow> revokePreview f);
          newFiles = filterIndex (files st) index
      in \<lparr>state = st\<lparr>files := newFiles\<rparr>,
          events = revoked @ [OnFilesChanged newFiles],
          setFilesCalled = True\<rparr>)"

text \<open>The effect on \<open>currentFiles\<close>: \<open>initializeFiles\<close> and the adoption of its result.\<close>

definition initializeFile :: "FileWithPreview \<Rightarrow> FileWithPreview" where
  "initializeFile file =
     (if truthy (preview file) then file
      else if (case typeOf file of
                 Some t \<Rightarrow> t \<noteq> [] \<and> str_startsWith t ''image/''
               | None \<Rightarrow> False)
           then (spreadEntry file)\<lparr>preview := Some []\<rparr>
           else file)"

definition initializeFiles :: "hook \<Rightarrow> FileWithPreview list \<Rightarrow> outcome" where
  "initializeFiles st currentFiles =
     (let initializedFiles = map initializeFile currentFiles
      in \<lparr>state = st\<lparr>files := initializedFiles\<rparr>,
          events = [OnFilesChanged initializedFiles],
          setFilesCalled = True\<rparr>)"

subsection \<open>The life of one hook instance\<close>

text \<open>
  Each user event is handled in a render of its own. The effect
  \<^verbatim>\<open>useEffect(() => () => revokePreviews(files), [files])\<close> registers a cleanup that
  closes over the list of the render it was created in; React runs it when a later render
  has another array in \<open>files\<close> (every \<open>setFiles\<close> call of the hook passes a new array),
  and once more when the component unmounts.
\<close>

datatype action =
    HandleFiles "File list"
  | RemoveFile int
  | CurrentFiles "FileWithPreview list"

fun perform :: "UseFileHandlerProps \<Rightarrow> hook \<Rightarrow> action \<Rightarrow> outcome" where
  "perform p st (HandleFiles selectedFiles) = handleFiles p st selectedFiles"
| "perform p st (RemoveFile index) = removeFile st index"
| "perform p st (CurrentFiles currentFiles) = initializeFiles st currentFiles"

definition dispatch :: "UseFileHandlerProps \<Rightarrow> hook \<Rightarrow> action \<Rightarrow> hook \<times> event list" where
  "dispatch p st a =
     (let r = perform p st a
      in (state r,
          events r @ (if setFilesCalled r then revokePreviews (files st) else [])))"

fun run :: "UseFileHandlerProps \<Rightarrow> hook \<Rightarrow> action list \<Rightarrow> hook \<times> event list" where
  "run p st [] = (st, [])"
| "run p st (a # as) =
     (let (st1, ev1) = dispatch p st a; (st2, ev2) = run p st1 as in (st2, ev1 @ ev2))"

definition teardown :: "hook \<Rightarrow> event list" where
  "teardown st = revokePreviews (files st)"

definition lifetime :: "UseFileHandlerProps \<Rightarrow> action list \<Rightarrow> event list" where
  "lifetime p as = (let (st, ev) = run p initial as in ev @ teardown st)"

subsection \<open>Sample inputs\<close>

text \<open>
  An image-only configuration with the component's default size limit of 5 MiB, small
  and oversized PNG candidates, a video candidate, list entries as \<open>handleFiles\<close> builds
  them for an accepted PNG, and a hook holding given entries.
\<close>

definition imageProps :: "int \<Rightarrow> UseFileHandlerProps" where
  "imageProps n =
     \<lparr>maxFiles = n, maxSize = 5 * 1024 * 1024, acceptedType = ''image/*'',
      onFilesRejected = True\<rparr>"

definition videoProps :: UseFileHandlerProps where
  "videoProps =
     \<lparr>maxFiles = 1, maxSize = 5 * 1024 * 1024, acceptedType = ''video/*'',
      onFilesRejected = True\<rparr>"

definition gigaProps :: UseFileHandlerProps where
  "gigaProps =
     \<lparr>maxFiles = 1, maxSize = 1610612736, acceptedType = ''image/*'',
      onFilesRejected = True\<rparr>"

definition gigaPng :: File where
  "gigaPng = \<lparr>fname = ''giga.png'', fsize = 2147483648, ftype = ''image/png''\<rparr>"

definition png :: "string \<Rightarrow> File" where
  "png n = \<lparr>fname = n, fsize = 2048, ftype = ''image/png''\<rparr>"

definition hugePng :: File where
  "hugePng = \<lparr>fname = ''huge.png'', fsize = 6 * 1024 * 1024, ftype = ''image/png''\<rparr>"

definition hugeClip :: File where
  "hugeClip = \<lparr>fname = ''huge.mp4'', fsize = 6 * 1024 * 1024, ftype = ''video/mp4''\<rparr>"

definition clip :: "string \<Rightarrow> File" where
  "clip t = \<lparr>fname = ''clip'', fsize = 2048, ftype = t\<rparr>"

definition selected :: "string \<Rightarrow> nat \<Rightarrow> FileWithPreview" where
  "selected n k = (spread (png n))\<lparr>preview := Some (createObjectURL k)\<rparr>"

definition holding :: "FileWithPreview list \<Rightarrow> nat \<Rightarrow> hook" where
  "holding fs k = \<lparr>files = fs, errors = [], nextUrl = k\<rparr>"

text \<open>
  An action respects the file limit when it is a selection or a removal, or the adoption
  of a \<open>currentFiles\<close> sequence no longer than \<open>maxFiles\<close>.
\<close>

fun withinLimit :: "UseFileHandlerProps \<Rightarrow> action \<Rightarrow> bool" where
  "withinLimit p (CurrentFiles currentFiles) = (int (length currentFiles) \<le> maxFiles p)"
| "withinLimit p (HandleFiles selectedFiles) = True"
| "withinLimit p (RemoveFile index) = True"

section \<open>Byte units\<close>

lemma toFixed1_quotient:
  assumes "0 < d"
  shows "toFixed1 (of_nat b / of_nat d) = (20 * int b + int d) div (2 * int d)"
proof -
  have "(of_nat b / of_nat d) * 10 + 1 / 2
          = (of_int (20 * int b + int d) :: rat) / of_int (2 * int d)"
    using assms by (simp add: field_simps)
  then show ?thesis
    unfolding toFixed1_def by (simp only: floor_divide_of_int_eq)
qed

lemma toFixed1_MB:
  "toFixed1 (of_nat b / (1024 * 1024)) = (20 * int b + 1048576) div 2097152"
  using toFixed1_quotient [of 1048576 b] by simp

lemma toFixed1_GB:
  "toFixed1 (of_nat b / (1024 * 1024 * 1024)) = (20 * int b + 1073741824) div 2147483648"
  using toFixed1_quotient [of 1073741824 b] by simp

lemma toFixed1_nearest:
  "of_int (toFixed1 x) / 10 - 1 / 20 \<le> x \<and> x < of_int (toFixed1 x) / 10 + 1 / 20"
  using floor_correct [of "x * 10 + 1 / 2"] unfolding toFixed1_def
  by (simp add: field_simps)

lemma bytesToUnit_MB:
  "bytesToUnit b MB = of_int ((20 * int b + 1048576) div 2097152) / 10"
  unfolding bytesToUnit_def Let_def ByteUnit.case parseFloat1_def
  by (simp only: toFixed1_MB)

lemma bytesToUnit_GB:
  "bytesToUnit b GB = of_int ((20 * int b + 1073741824) div 2147483648) / 10"
  unfolding bytesToUnit_def Let_def ByteUnit.case parseFloat1_def
  by (simp only: toFixed1_GB)

lemma bytesToUnit_tenths: "bytesToUnit b u = of_int (toFixed1 (bytesToUnit b u)) / 10"
proof -
  have t: "toFixed1 (of_int n / 10) = n" for n
    unfolding toFixed1_def by (simp add: floor_eq_iff)
  show ?thesis
    by (cases u) (simp_all add: bytesToUnit_def Let_def parseFloat1_def t)
qed

text \<open>
  C9. \<open>getAppropriateUnit\<close> answers GB exactly from \<open>2^30\<close> bytes on and MB below, and
  \<open>bytesToUnit\<close> is the quotient by \<open>2^20\<close> (MB) or \<open>2^30\<close> (GB) rounded to one decimal
  place: the result is a whole number of tenths, at most half a tenth away from the
  quotient, and a quotient exactly halfway is rounded up. The spec's three sample values
  hold.
\<close>

theorem C9_units_and_rounding:
  "(getAppropriateUnit b = GB) = (b \<ge> 2 ^ 30)
   \<and> (getAppropriateUnit b = MB) = (b < 2 ^ 30)
   \<and> getAppropriateUnit 1073741823 = MB
   \<and> getAppropriateUnit 1073741824 = GB
   \<and> (\<exists>n :: int. bytesToUnit b MB = of_int n / 10)
   \<and> bytesToUnit b MB - 1 / 20 \<le> of_nat b / 2 ^ 20
   \<and> of_nat b / 2 ^ 20 < bytesToUnit b MB + 1 / 20
   \<and> (\<exists>n :: int. bytesToUnit b GB = of_int n / 10)
   \<and> bytesToUnit b GB - 1 / 20 \<le> of_nat b / 2 ^ 30
   \<and> of_nat b / 2 ^ 30 < bytesToUnit b GB + 1 / 20
   \<and> bytesToUnit 1572864 MB = 15 / 10"
proof -
  have u: "(getAppropriateUnit b = GB) = (b \<ge> 2 ^ 30)"
          "(getAppropriateUnit b = MB) = (b < 2 ^ 30)"
          "getAppropriateUnit 1073741823 = MB" "getAppropriateUnit 1073741824 = GB"
    by (simp_all add: getAppropriateUnit_def)
  have m: "bytesToUnit b MB - 1 / 20 \<le> of_nat b / 2 ^ 20
           \<and> of_nat b / 2 ^ 20 < bytesToUnit b MB + 1 / 20"
    using toFixed1_nearest [of "of_nat b / (1024 * 1024)"]
    by (simp add: bytesToUnit_def Let_def parseFloat1_def)
  have g: "bytesToUnit b GB - 1 / 20 \<le> of_nat b / 2 ^ 30
           \<and> of_nat b / 2 ^ 30 < bytesToUnit b GB + 1 / 20"
    using toFixed1_nearest [of "of_nat b / (1024 * 1024 * 1024)"]
    by (simp add: bytesToUnit_def Let_def parseFloat1_def)
  have e: "\<exists>n :: int. bytesToUnit b MB = of_int n / 10"
          "\<exists>n :: int. bytesToUnit b GB = of_int n / 10"
    using bytesToUnit_tenths by blast+
  have s: "bytesToUnit 1572864 MB = 15 / 10"
    by (simp add: bytesToUnit_MB)
  from u m g e s show ?thesis by blast
qed

text \<open>
  C10. The component's \<open>bytesToMB\<close> and the hook's \<open>bytesToUnit\<close> at unit MB return the
  same number for every byte count.
\<close>

theorem C10_bytesToMB_is_bytesToUnit_MB: "bytesToMB b = bytesToUnit b MB"
  by (simp add: bytesToMB_def bytesToUnit_def)

section \<open>Validation of a batch\<close>

lemma validateStep_errorMessages:
  "errorMessages (validateStep p v c) =
     errorMessages v @ (case validateFile p c of None \<Rightarrow> [] | Some e \<Rightarrow> [e])"
  by (simp add: validateStep_def Let_def split: option.splits)

lemma fold_errorMessages:
  "errorMessages (foldl (validateStep p) v cs) =
     errorMessages v @ List.map_filter (validateFile p) cs"
  by (induction cs arbitrary: v)
     (simp_all add: validateStep_errorMessages map_filter_simps split: option.splits)

lemma errorMessages_validateSelectedFiles:
  "errorMessages (validateSelectedFiles p n cs) = List.map_filter (validateFile p) cs"
  by (simp add: validateSelectedFiles_def fold_errorMessages)

lemma errorMessages_mem:
  "e \<in> set (errorMessages (validateSelectedFiles p n cs))
     \<longleftrightarrow> (\<exists>c \<in> set cs. validateFile p c = Some e)"
  by (force simp: errorMessages_validateSelectedFiles map_filter_def image_iff)

lemma validateStep_accepted:
  "acceptedFiles (validateStep p v c) =
     acceptedFiles v
     @ (if validateFile p c = None then [acceptedEntry c (urlCounter v)] else [])"
  by (simp add: validateStep_def acceptedEntry_def Let_def split: option.splits)

lemma validateStep_rejected_keeps:
  assumes "validateFile p c = Some e"
  shows "acceptedFiles (validateStep p v c) = acceptedFiles v"
    and "urlCounter (validateStep p v c) = urlCounter v"
    and "urlEvents (validateStep p v c) = urlEvents v"
  using assms by (simp_all add: validateStep_def Let_def)

lemma validateStep_accepted_cong:
  assumes "acceptedFiles v = acceptedFiles w" and "urlCounter v = urlCounter w"
    and "urlEvents v = urlEvents w"
  shows "acceptedFiles (validateStep p v c) = acceptedFiles (validateStep p w c)
       \<and> urlCounter (validateStep p v c) = urlCounter (validateStep p w c)
       \<and> urlEvents (validateStep p v c) = urlEvents (validateStep p w c)"
  using assms by (simp add: validateStep_def Let_def split: option.splits)

lemma fold_accepted_cong:
  assumes "acceptedFiles v = acceptedFiles w" and "urlCounter v = urlCounter w"
    and "urlEvents v = urlEvents w"
  shows "acceptedFiles (foldl (validateStep p) v cs) = acceptedFiles (foldl (validateStep p) w cs)
       \<and> urlCounter (foldl (validateStep p) v cs) = urlCounter (foldl (validateStep p) w cs)
       \<and> urlEvents (foldl (validateStep p) v cs) = urlEvents (foldl (validateStep p) w cs)"
  using assms
proof (induction cs arbitrary: v w)
  case Nil
  then show ?case by simp
next
  case (Cons c cs)
  have "acceptedFiles (validateStep p v c) = acceptedFiles (validateStep p w c)"
    and "urlCounter (validateStep p v c) = urlCounter (validateStep p w c)"
    and "urlEvents (validateStep p v c) = urlEvents (validateStep p w c)"
    using validateStep_accepted_cong [OF Cons.prems, of p c] by blast+
  then have "acceptedFiles (foldl (validateStep p) (validateStep p v c) cs)
               = acceptedFiles (foldl (validateStep p) (validateStep p w c) cs)
       \<and> urlCounter (foldl (validateStep p) (validateStep p v c) cs)
               = urlCounter (foldl (validateStep p) (validateStep p w c) cs)
       \<and> urlEvents (foldl (validateStep p) (validateStep p v c) cs)
               = urlEvents (foldl (validateStep p) (validateStep p w c) cs)"
    by (rule Cons.IH)
  then show ?case
    by (simp only: foldl_Cons)
qed

lemma accepted_without_rejected:
  assumes "validateFile p c = Some e"
  shows "acceptedFiles (validateSelectedFiles p n (xs @ c # ys))
           = acceptedFiles (validateSelectedFiles p n (xs @ ys))
       \<and> urlCounter (validateSelectedFiles p n (xs @ c # ys))
           = urlCounter (validateSelectedFiles p n (xs @ ys))
       \<and> urlEvents (validateSelectedFiles p n (xs @ c # ys))
           = urlEvents (validateSelectedFiles p n (xs @ ys))"
  unfolding validateSelectedFiles_def foldl_append foldl_Cons
  by (rule fold_accepted_cong) (simp_all add: validateStep_rejected_keeps [OF assms])

lemma fold_accepted_length:
  "length (acceptedFiles (foldl (validateStep p) v cs)) =
     length (acceptedFiles v) + length (filter (\<lambda>c. validateFile p c = None) cs)"
  by (induction cs arbitrary: v) (simp_all add: validateStep_accepted)

lemma accepted_length:
  "length (acceptedFiles (validateSelectedFiles p n cs)) =
     length (filter (\<lambda>c. validateFile p c = None) cs)"
  by (simp add: validateSelectedFiles_def fold_accepted_length)

lemma fold_accepted_extends:
  "\<exists>more. acceptedFiles (foldl (validateStep p) v cs) = acceptedFiles v @ more"
proof (induction cs arbitrary: v)
  case Nil
  then show ?case by simp
next
  case (Cons c cs)
  obtain more where "acceptedFiles (foldl (validateStep p) (validateStep p v c) cs)
                       = acceptedFiles (validateStep p v c) @ more"
    using Cons.IH by blast
  then show ?case
    by (simp add: validateStep_accepted)
qed

lemma fold_accepted_hd:
  assumes "acceptedFiles v = []" and "filter (\<lambda>c. validateFile p c = None) cs \<noteq> []"
  shows "hd (acceptedFiles (foldl (validateStep p) v cs)) =
           acceptedEntry (hd (filter (\<lambda>c. validateFile p c = None) cs)) (urlCounter v)"
  using assms
proof (induction cs arbitrary: v)
  case Nil
  then show ?case by simp
next
  case (Cons c cs)
  show ?case
  proof (cases "validateFile p c")
    case None
    obtain more where "acceptedFiles (foldl (validateStep p) (validateStep p v c) cs)
                         = acceptedFiles (validateStep p v c) @ more"
      using fold_accepted_extends by blast
    then show ?thesis
      using None Cons.prems(1) by (simp add: validateStep_accepted)
  next
    case (Some e)
    have "acceptedFiles (validateStep p v c) = []"
      using Some Cons.prems(1) by (simp add: validateStep_rejected_keeps)
    moreover have "filter (\<lambda>c. validateFile p c = None) cs \<noteq> []"
      using Some Cons.prems(2) by simp
    ultimately have "hd (acceptedFiles (foldl (validateStep p) (validateStep p v c) cs)) =
           acceptedEntry (hd (filter (\<lambda>c. validateFile p c = None) cs))
             (urlCounter (validateStep p v c))"
      by (rule Cons.IH)
    then show ?thesis
      using Some by (simp add: validateStep_rejected_keeps)
  qed
qed

lemma accepted_hd:
  assumes "filter (\<lambda>c. validateFile p c = None) cs \<noteq> []"
  shows "hd (acceptedFiles (validateSelectedFiles p n cs)) =
           acceptedEntry (hd (filter (\<lambda>c. validateFile p c = None) cs)) n"
  unfolding validateSelectedFiles_def
  using fold_accepted_hd [of _ p cs, OF _ assms] by simp

lemma validateStep_rejectedFiles:
  "rejectedFiles (validateStep p v c) =
     rejectedFiles v @ (case validateFile p c of None \<Rightarrow> []
                        | Some e \<Rightarrow> [(spread c)\<lparr>error := Some e\<rparr>])"
  by (simp add: validateStep_def Let_def split: option.splits)

lemma fold_rejectedFiles:
  "rejectedFiles (foldl (validateStep p) v cs) =
     rejectedFiles v
     @ map (\<lambda>c. (spread c)\<lparr>error := validateFile p c\<rparr>)
         (filter (\<lambda>c. validateFile p c \<noteq> None) cs)"
  by (induction cs arbitrary: v)
     (auto simp: validateStep_rejectedFiles split: option.splits)

lemma rejectedFiles_validateSelectedFiles:
  "rejectedFiles (validateSelectedFiles p n cs) =
     map (\<lambda>c. (spread c)\<lparr>error := validateFile p c\<rparr>)
       (filter (\<lambda>c. validateFile p c \<noteq> None) cs)"
  by (simp add: validateSelectedFiles_def fold_rejectedFiles)

lemma fold_accepted_error:
  assumes "\<forall>g \<in> set (acceptedFiles v). error g = None"
  shows "\<forall>g \<in> set (acceptedFiles (foldl (validateStep p) v cs)). error g = None"
  using assms
proof (induction cs arbitrary: v)
  case Nil
  then show ?case by simp
next
  case (Cons c cs)
  have "\<forall>g \<in> set (acceptedFiles (validateStep p v c)). error g = None"
    using Cons.prems by (auto simp: validateStep_def Let_def spread_def split: option.splits)
  then show ?case
    using Cons.IH by simp
qed

lemma accepted_error:
  "g \<in> set (acceptedFiles (validateSelectedFiles p n cs)) \<Longrightarrow> error g = None"
proof -
  assume a: "g \<in> set (acceptedFiles (validateSelectedFiles p n cs))"
  have "\<forall>g \<in> set (acceptedFiles (validateSelectedFiles p n cs)). error g = None"
    unfolding validateSelectedFiles_def by (rule fold_accepted_error) simp
  with a show ?thesis by blast
qed

lemma fold_urlEvents:
  assumes "\<forall>e \<in> set (urlEvents v). \<exists>u. e = CreateObjectURL u"
  shows "\<forall>e \<in> set (urlEvents (foldl (validateStep p) v cs)). \<exists>u. e = CreateObjectURL u"
  using assms
proof (induction cs arbitrary: v)
  case Nil
  then show ?case by simp
next
  case (Cons c cs)
  have "\<forall>e \<in> set (urlEvents (validateStep p v c)). \<exists>u. e = CreateObjectURL u"
    using Cons.prems by (auto simp: validateStep_def Let_def split: option.splits)
  then show ?case
    using Cons.IH by simp
qed

lemma urlEvents_create:
  "e \<in> set (urlEvents (validateSelectedFiles p n cs)) \<Longrightarrow> \<exists>u. e = CreateObjectURL u"
proof -
  assume a: "e \<in> set (urlEvents (validateSelectedFiles p n cs))"
  have "\<forall>e \<in> set (urlEvents (validateSelectedFiles p n cs)). \<exists>u. e = CreateObjectURL u"
    unfolding validateSelectedFiles_def by (rule fold_urlEvents) simp
  with a show ?thesis by blast
qed

lemma validateFile_message_head:
  "validateFile p c = Some e \<Longrightarrow> hd e = CHR ''T''"
  by (auto simp: validateFile_def Let_def split: if_splits)

lemma maxFilesError_head: "hd (maxFilesError p) = CHR ''Y''"
  by (simp add: maxFilesError_def)

lemma maxFilesError_not_validation:
  "maxFilesError p \<notin> set (errorMessages (validateSelectedFiles p n cs))"
proof
  assume "maxFilesError p \<in> set (errorMessages (validateSelectedFiles p n cs))"
  then obtain c where "validateFile p c = Some (maxFilesError p)"
    by (auto simp: errorMessages_mem)
  then have "hd (maxFilesError p) = CHR ''T''"
    by (rule validateFile_message_head)
  then show False
    by (simp add: maxFilesError_head)
qed

lemma rejected_error:
  assumes "g \<in> set (rejectedFiles (validateSelectedFiles p n cs))"
  shows "\<exists>e c. c \<in> set cs \<and> validateFile p c = Some e \<and> error g = Some e"
  using assms by (auto simp: rejectedFiles_validateSelectedFiles)

lemma rejected_mem:
  assumes "validateFile p c = Some e" and "c \<in> set cs"
  shows "(spread c)\<lparr>error := Some e\<rparr> \<in> set (rejectedFiles (validateSelectedFiles p n cs))"
proof -
  have "(\<lambda>c. (spread c)\<lparr>error := validateFile p c\<rparr>) c
          \<in> (\<lambda>c. (spread c)\<lparr>error := validateFile p c\<rparr>)
              ` set (filter (\<lambda>c. validateFile p c \<noteq> None) cs)"
    using assms by (intro imageI) simp
  then show ?thesis
    using assms(1) by (simp add: rejectedFiles_validateSelectedFiles)
qed

lemma annotated_not_rejected:
  "annotate g \<notin> set (rejectedFiles (validateSelectedFiles p n cs))"
proof
  assume "annotate g \<in> set (rejectedFiles (validateSelectedFiles p n cs))"
  then obtain e c where "validateFile p c = Some e" "error (annotate g) = Some e"
    using rejected_error by blast
  then have "hd ''Exceeded the maximum number of allowed files.'' = CHR ''T''"
    using validateFile_message_head [of p c e] by (simp add: annotate_def)
  then show False by simp
qed

lemma errors_handleFiles:
  "set (errorMessages (validateSelectedFiles p (nextUrl st) cs))
     \<subseteq> set (errors (state (handleFiles p st cs)))"
  by (auto simp: handleFiles_def Let_def split: prod.splits option.splits)

lemma files_handleFiles:
  "\<exists>new. (files (state (handleFiles p st cs)) = files st @ new
            \<or> files (state (handleFiles p st cs)) = new)
         \<and> set new \<subseteq> set (acceptedFiles (validateSelectedFiles p (nextUrl st) cs))"
proof -
  let ?v = "validateSelectedFiles p (nextUrl st) cs"
  show ?thesis
  proof (cases "acceptedFiles ?v = []")
    case True
    then have "files (state (handleFiles p st cs)) = files st @ []"
      by (simp add: handleFiles_def Let_def)
    then show ?thesis by (metis empty_set empty_subsetI)
  next
    case False
    obtain r ev where g: "getNewFiles p (files st) (acceptedFiles ?v) = (r, ev)"
      by (cases "getNewFiles p (files st) (acceptedFiles ?v)")
    show ?thesis
    proof (cases r)
      case None
      with g False have "files (state (handleFiles p st cs)) = files st @ []"
        by (simp add: handleFiles_def Let_def)
      then show ?thesis by (metis empty_set empty_subsetI)
    next
      case (Some newFiles)
      with g False have f: "files (state (handleFiles p st cs)) = newFiles"
        by (simp add: handleFiles_def Let_def)
      from g Some have "\<exists>k. newFiles = files st @ take k (acceptedFiles ?v)
                            \<or> newFiles = take k (acceptedFiles ?v)"
        by (auto simp: getNewFiles_def Let_def split: if_splits intro: exI [of _ "length (acceptedFiles ?v)"])
      then obtain k where "newFiles = files st @ take k (acceptedFiles ?v)
                            \<or> newFiles = take k (acceptedFiles ?v)" ..
      with f show ?thesis
        by (metis set_take_subset)
    qed
  qed
qed

lemma files_handleFiles_accepted:
  assumes "acceptedFiles (validateSelectedFiles p (nextUrl st) cs)
             = acceptedFiles (validateSelectedFiles p (nextUrl st) ds)"
  shows "files (state (handleFiles p st cs)) = files (state (handleFiles p st ds))"
  using assms by (simp add: handleFiles_def Let_def split: prod.splits option.splits)

lemma entering_files_no_error:
  "\<exists>new. (files (state (handleFiles p st cs)) = files st @ new
            \<or> files (state (handleFiles p st cs)) = new)
         \<and> (\<forall>g \<in> set new. error g = None)"
proof -
  obtain new where n: "files (state (handleFiles p st cs)) = files st @ new
                        \<or> files (state (handleFiles p st cs)) = new"
      and s: "set new \<subseteq> set (acceptedFiles (validateSelectedFiles p (nextUrl st) cs))"
    using files_handleFiles by blast
  have "\<forall>g \<in> set new. error g = None"
    using s accepted_error by blast
  with n show ?thesis by blast
qed

lemma rejected_candidate:
  assumes "validateFile p c = Some e"
  shows "e \<in> set (errors (state (handleFiles p st (xs @ c # ys))))
       \<and> (spread c)\<lparr>error := Some e\<rparr>
           \<in> set (rejectedFiles (validateSelectedFiles p (nextUrl st) (xs @ c # ys)))
       \<and> acceptedFiles (validateSelectedFiles p (nextUrl st) (xs @ c # ys))
           = acceptedFiles (validateSelectedFiles p (nextUrl st) (xs @ ys))
       \<and> files (state (handleFiles p st (xs @ c # ys)))
           = files (state (handleFiles p st (xs @ ys)))"
proof -
  have "e \<in> set (errorMessages (validateSelectedFiles p (nextUrl st) (xs @ c # ys)))"
    using assms by (auto simp: errorMessages_mem)
  then have m: "e \<in> set (errors (state (handleFiles p st (xs @ c # ys))))"
    using errors_handleFiles by blast
  have r: "(spread c)\<lparr>error := Some e\<rparr>
           \<in> set (rejectedFiles (validateSelectedFiles p (nextUrl st) (xs @ c # ys)))"
    using assms by (rule rejected_mem) simp
  have a: "acceptedFiles (validateSelectedFiles p (nextUrl st) (xs @ c # ys))
           = acceptedFiles (validateSelectedFiles p (nextUrl st) (xs @ ys))"
    using accepted_without_rejected [OF assms] by blast
  from m r a files_handleFiles_accepted [OF a] show ?thesis by blast
qed

text \<open>
  C7. A candidate larger than \<open>maxSize\<close> is rejected whatever its type (the size test
  comes first). \<open>validateFile\<close> returns the size message: the file's name, then
  \<open>maxSize\<close> in GB when \<open>maxSize \<ge> 2^30\<close> and in MB otherwise, converted by
  \<open>bytesToUnit\<close>. Wherever the candidate stands in the batch, \<open>handleFiles\<close> puts the
  message into \<open>errors\<close> and the candidate, marked with the message, into the rejected
  files; the accepted files and the resulting \<open>files\<close> list are those of the batch
  without the candidate, and every entry that enters \<open>files\<close> is free of an error mark.
\<close>

theorem C7_oversize_rejected:
  fixes p c xs ys st
  defines "m \<equiv> ''The file '' @ dq @ fname c @ dq @ '' exceeds the maximum size of ''
                 @ (if 2 ^ 30 \<le> maxSize p
                    then numberToString (bytesToUnit (maxSize p) GB) @ '' GB.''
                    else numberToString (bytesToUnit (maxSize p) MB) @ '' MB.'')"
  assumes "fsize c > maxSize p"
  shows "validateFile p c = Some m
       \<and> m \<in> set (errors (state (handleFiles p st (xs @ c # ys))))
       \<and> (spread c)\<lparr>error := Some m\<rparr>
           \<in> set (rejectedFiles (validateSelectedFiles p (nextUrl st) (xs @ c # ys)))
       \<and> acceptedFiles (validateSelectedFiles p (nextUrl st) (xs @ c # ys))
           = acceptedFiles (validateSelectedFiles p (nextUrl st) (xs @ ys))
       \<and> files (state (handleFiles p st (xs @ c # ys)))
           = files (state (handleFiles p st (xs @ ys)))
       \<and> (\<exists>new. (files (state (handleFiles p st (xs @ c # ys))) = files st @ new
                   \<or> files (state (handleFiles p st (xs @ c # ys))) = new)
                \<and> (\<forall>g \<in> set new. error g = None))"
proof -
  have v: "validateFile p c = Some m"
    using assms(2) by (simp add: validateFile_def Let_def m_def getAppropriateUnit_def)
  from v rejected_candidate [OF v, of st xs ys]
       entering_files_no_error [of p st "xs @ c # ys"]
  show ?thesis by blast
qed

lemma mapType_cases:
  "mapType t =
     (if str_includes t ''application'' \<or> str_includes t ''text'' then Text
      else if str_includes t ''image'' then Image
      else if str_includes t ''audio'' then Audio
      else if str_includes t ''video'' then Video
      else Image)"
  by (simp add: mapType_def typeMap_def)

text \<open>
  C8 (amended). The category is decided by the first of the keys \<open>application\<close>, \<open>text\<close>,
  \<open>image\<close>, \<open>audio\<close>, \<open>video\<close> (in this order) that occurs anywhere in the mime
  string: \<open>application\<close> and \<open>text\<close> give Text, \<open>image\<close> Image, \<open>audio\<close>
  Audio, \<open>video\<close> Video, and Image when none occurs. A candidate that passes the size
  test and whose category differs from \<open>acceptedType\<close> is rejected with the message
  that quotes its raw mime type: wherever it stands in the batch, \<open>handleFiles\<close> records
  the message in \<open>errors\<close>, puts the candidate, marked with the message, into the
  rejected files, and the accepted files and the resulting \<open>files\<close> list are those of
  the batch without it.
\<close>

theorem C8_category_and_type_rejection:
  "mapType t =
     (if str_includes t ''application'' \<or> str_includes t ''text'' then Text
      else if str_includes t ''image'' then Image
      else if str_includes t ''audio'' then Audio
      else if str_includes t ''video'' then Video
      else Image)
   \<and> (fsize c \<le> maxSize p \<and> FileType_value (mapType (ftype c)) \<noteq> acceptedType p
        \<longrightarrow> validateFile p c
              = Some (''The file type '' @ dq @ ftype c @ dq @ '' is not accepted.'')
          \<and> (''The file type '' @ dq @ ftype c @ dq @ '' is not accepted.'')
              \<in> set (errors (state (handleFiles p st (xs @ c # ys))))
          \<and> (spread c)\<lparr>error :=
                Some (''The file type '' @ dq @ ftype c @ dq @ '' is not accepted.'')\<rparr>
              \<in> set (rejectedFiles (validateSelectedFiles p (nextUrl st) (xs @ c # ys)))
          \<and> acceptedFiles (validateSelectedFiles p (nextUrl st) (xs @ c # ys))
              = acceptedFiles (validateSelectedFiles p (nextUrl st) (xs @ ys))
          \<and> files (state (handleFiles p st (xs @ c # ys)))
              = files (state (handleFiles p st (xs @ ys))))"
proof -
  let ?m = "''The file type '' @ dq @ ftype c @ dq @ '' is not accepted.''"
  have h: "validateFile p c = Some ?m
          \<and> ?m \<in> set (errors (state (handleFiles p st (xs @ c # ys))))
          \<and> (spread c)\<lparr>error := Some ?m\<rparr>
              \<in> set (rejectedFiles (validateSelectedFiles p (nextUrl st) (xs @ c # ys)))
          \<and> acceptedFiles (validateSelectedFiles p (nextUrl st) (xs @ c # ys))
              = acceptedFiles (validateSelectedFiles p (nextUrl st) (xs @ ys))
          \<and> files (state (handleFiles p st (xs @ c # ys)))
              = files (state (handleFiles p st (xs @ ys)))"
    if "fsize c \<le> maxSize p" "FileType_value (mapType (ftype c)) \<noteq> acceptedType p"
  proof -
    have v: "validateFile p c = Some ?m"
      using that by (simp add: validateFile_def Let_def)
    from v rejected_candidate [OF v, of st xs ys] show ?thesis by blast
  qed
  from h show ?thesis
    by (simp only: mapType_cases [symmetric]) blast
qed

section \<open>The count policy\<close>

lemma revokePreviews_mem:
  "preview f = Some u \<Longrightarrow> u \<noteq> [] \<Longrightarrow> f \<in> set fs \<Longrightarrow> RevokeObjectURL u \<in> set (revokePreviews fs)"
  by (force simp: revokePreviews_def revokePreview_def truthy_def)

lemma rejectedCall_only_rejected:
  "e \<in> set (rejectedCall p v) \<Longrightarrow> e = OnFilesRejected (rejectedFiles v)"
  by (simp add: rejectedCall_def split: if_splits)

text \<open>
  C3. With \<open>maxFiles = 1\<close>, \<open>handleFiles\<close> never raises the maximum-files error; and
  when the batch has at least one accepted candidate, it revokes the preview of every
  file selected before, sets \<open>files\<close> to exactly one entry, the one built for the first
  candidate of the batch that passes validation (with the first URL the call creates,
  if that candidate is an image), reports that list through \<open>onFilesChanged\<close>, and does
  not hand the accepted files to \<open>onFilesRejected\<close>.
\<close>

theorem C3_single_file_replaces:
  fixes p st batch
  defines "v \<equiv> validateSelectedFiles p (nextUrl st) batch"
  defines "r \<equiv> handleFiles p st batch"
  assumes "maxFiles p = 1"
  shows "errors (state r) = errorMessages v
       \<and> maxFilesError p \<notin> set (errors (state r))
       \<and> (acceptedFiles v \<noteq> [] \<longrightarrow>
            files (state r) = [hd (acceptedFiles v)]
          \<and> filter (\<lambda>c. validateFile p c = None) batch \<noteq> []
          \<and> hd (acceptedFiles v)
              = acceptedEntry (hd (filter (\<lambda>c. validateFile p c = None) batch)) (nextUrl st)
          \<and> error (hd (acceptedFiles v)) = None
          \<and> events r = urlEvents v @ revokePreviews (files st)
                         @ [OnFilesChanged [hd (acceptedFiles v)]] @ rejectedCall p v
          \<and> (\<forall>f \<in> set (files st). \<forall>u. preview f = Some u \<and> u \<noteq> []
                \<longrightarrow> RevokeObjectURL u \<in> set (events r))
          \<and> OnFilesRejected (map annotate (acceptedFiles v)) \<notin> set (events r))"
proof -
  have g: "getNewFiles p (files st) (acceptedFiles v)
             = (Some (take 1 (acceptedFiles v)), revokePreviews (files st))"
    using assms(3) by (simp add: getNewFiles_def)
  have er: "errors (state r) = errorMessages v"
    using g by (simp add: r_def handleFiles_def Let_def v_def [symmetric])
  have m: "maxFilesError p \<notin> set (errors (state r))"
    using er maxFilesError_not_validation [of p "nextUrl st" batch] by (simp add: v_def)
  have main: "files (state r) = [hd (acceptedFiles v)]
          \<and> filter (\<lambda>c. validateFile p c = None) batch \<noteq> []
          \<and> hd (acceptedFiles v)
              = acceptedEntry (hd (filter (\<lambda>c. validateFile p c = None) batch)) (nextUrl st)
          \<and> error (hd (acceptedFiles v)) = None
          \<and> events r = urlEvents v @ revokePreviews (files st)
                         @ [OnFilesChanged [hd (acceptedFiles v)]] @ rejectedCall p v
          \<and> (\<forall>f \<in> set (files st). \<forall>u. preview f = Some u \<and> u \<noteq> []
                \<longrightarrow> RevokeObjectURL u \<in> set (events r))
          \<and> OnFilesRejected (map annotate (acceptedFiles v)) \<notin> set (events r)"
    if ne: "acceptedFiles v \<noteq> []"
  proof -
    from ne obtain a as where acc: "acceptedFiles v = a # as"
      by (cases "acceptedFiles v") auto
    have f: "files (state r) = [hd (acceptedFiles v)]"
      and ev: "events r = urlEvents v @ revokePreviews (files st)
                        @ [OnFilesChanged [hd (acceptedFiles v)]] @ rejectedCall p v"
      using g acc by (simp_all add: r_def handleFiles_def Let_def v_def [symmetric])
    have fl: "filter (\<lambda>c. validateFile p c = None) batch \<noteq> []"
      using ne accepted_length [of p "nextUrl st" batch] by (auto simp: v_def)
    have t: "hd (acceptedFiles v)
              = acceptedEntry (hd (filter (\<lambda>c. validateFile p c = None) batch)) (nextUrl st)"
      unfolding v_def using fl by (rule accepted_hd)
    have n: "error (hd (acceptedFiles v)) = None"
      using ne accepted_error [of "hd (acceptedFiles v)" p "nextUrl st" batch]
      by (simp add: v_def)
    have rv: "\<forall>f \<in> set (files st). \<forall>u. preview f = Some u \<and> u \<noteq> []
               \<longrightarrow> RevokeObjectURL u \<in> set (events r)"
      using ev revokePreviews_mem by auto
    have no: "OnFilesRejected (map annotate (acceptedFiles v)) \<notin> set (events r)"
    proof
      assume "OnFilesRejected (map annotate (acceptedFiles v)) \<in> set (events r)"
      then have "OnFilesRejected (map annotate (acceptedFiles v)) \<in> set (urlEvents v)
                 \<or> OnFilesRejected (map annotate (acceptedFiles v))
                     \<in> set (revokePreviews (files st))
                 \<or> OnFilesRejected (map annotate (acceptedFiles v)) \<in> set (rejectedCall p v)"
        using ev by auto
      then have "map annotate (acceptedFiles v) = rejectedFiles v"
        using urlEvents_create [of _ p "nextUrl st" batch] rejectedCall_only_rejected [of _ p v]
        by (auto simp: v_def revokePreviews_def revokePreview_def truthy_def
                 split: option.splits if_splits)
      then have "annotate a \<in> set (rejectedFiles v)"
        using acc by (metis list.set_intros(1) list.simps(9))
      then show False
        using annotated_not_rejected [of a p "nextUrl st" batch] by (simp add: v_def)
    qed
    from f fl t n ev rv no show ?thesis by blast
  qed
  from er m main show ?thesis by blast
qed

text \<open>
  C4 (amended). With \<open>maxFiles > 1\<close>, no room left and at least one accepted candidate,
  \<open>handleFiles\<close> leaves \<open>files\<close> unchanged, does not call \<open>onFilesChanged\<close>, appends
  the maximum-files error after the batch's validation messages and, when
  \<open>onFilesRejected\<close> is supplied, calls it exactly once, with the accepted files, each
  annotated with the count error and none of them a validation-rejected file. That call
  is the only callback of the invocation.
\<close>

theorem C4_no_room_rejects_batch:
  fixes p st batch
  defines "v \<equiv> validateSelectedFiles p (nextUrl st) batch"
  defines "r \<equiv> handleFiles p st batch"
  assumes "maxFiles p > 1" and "maxFiles p - int (length (files st)) \<le> 0"
    and "acceptedFiles v \<noteq> []"
  shows "files (state r) = files st
       \<and> \<not> setFilesCalled r
       \<and> (\<forall>fs. OnFilesChanged fs \<notin> set (events r))
       \<and> errors (state r) = errorMessages v @ [maxFilesError p]
       \<and> events r = urlEvents v
                    @ (if onFilesRejected p
                       then [OnFilesRejected (map annotate (acceptedFiles v))] else [])
       \<and> (\<forall>g \<in> set (map annotate (acceptedFiles v)).
             error g = Some ''Exceeded the maximum number of allowed files.''
             \<and> g \<notin> set (rejectedFiles v))"
proof -
  obtain a as where "acceptedFiles v = a # as"
    using assms(5) by (cases "acceptedFiles v") auto
  then have "maxFiles p < int (length (files st)) + int (length (acceptedFiles v))"
    using assms(4) by simp
  then have g: "getNewFiles p (files st) (acceptedFiles v) = (None, [])"
    using assms(3,4) by (simp add: getNewFiles_def Let_def)
  have f: "files (state r) = files st" and s: "\<not> setFilesCalled r"
    and er: "errors (state r) = errorMessages v @ [maxFilesError p]"
    and ev: "events r = urlEvents v
                    @ (if onFilesRejected p
                       then [OnFilesRejected (map annotate (acceptedFiles v))] else [])"
    using g assms(5) by (simp_all add: r_def handleFiles_def Let_def v_def [symmetric])
  have c: "\<forall>fs. OnFilesChanged fs \<notin> set (events r)"
    using ev urlEvents_create [of _ p "nextUrl st" batch] by (auto simp: v_def)
  have a: "\<forall>g \<in> set (map annotate (acceptedFiles v)).
             error g = Some ''Exceeded the maximum number of allowed files.''
             \<and> g \<notin> set (rejectedFiles v)"
    using annotated_not_rejected [of _ p "nextUrl st" batch]
    by (auto simp: v_def annotate_def)
  from f s c er ev a show ?thesis by blast
qed

text \<open>
  C5. With \<open>maxFiles > 1\<close> and \<open>0 < room < \<close> number of accepted candidates,
  \<open>handleFiles\<close> appends the first \<open>room\<close> accepted files in order, calls
  \<open>onFilesChanged\<close> with the new list, and drops the rest silently: no error message is
  added for them, and no \<open>onFilesRejected\<close> call carries them.
\<close>

theorem C5_partial_room_appends_prefix:
  fixes p st batch
  defines "v \<equiv> validateSelectedFiles p (nextUrl st) batch"
  defines "r \<equiv> handleFiles p st batch"
  defines "room \<equiv> maxFiles p - int (length (files st))"
  assumes "maxFiles p > 1" and "0 < room" and "room < int (length (acceptedFiles v))"
  shows "files (state r) = files st @ take (nat room) (acceptedFiles v)
       \<and> int (length (files (state r))) = maxFiles p
       \<and> events r = urlEvents v @ [OnFilesChanged (files st @ take (nat room) (acceptedFiles v))]
                    @ rejectedCall p v
       \<and> errors (state r) = errorMessages v
       \<and> maxFilesError p \<notin> set (errors (state r))
       \<and> (\<forall>g \<in> set (drop (nat room) (acceptedFiles v)).
             g \<notin> set (rejectedFiles v) \<and> annotate g \<notin> set (rejectedFiles v)
             \<and> error g = None)
       \<and> OnFilesRejected (map annotate (acceptedFiles v)) \<notin> set (events r)"
proof -
  have ne: "acceptedFiles v \<noteq> []"
    using assms(5,6) by auto
  have g: "getNewFiles p (files st) (acceptedFiles v)
             = (Some (files st @ take (nat room) (acceptedFiles v)), [])"
    using assms(4,5,6) by (auto simp: getNewFiles_def Let_def room_def)
  have f: "files (state r) = files st @ take (nat room) (acceptedFiles v)"
    and ev: "events r = urlEvents v
               @ [OnFilesChanged (files st @ take (nat room) (acceptedFiles v))]
               @ rejectedCall p v"
    and er: "errors (state r) = errorMessages v"
    using g ne by (simp_all add: r_def handleFiles_def Let_def v_def [symmetric])
  have l: "int (length (files (state r))) = maxFiles p"
    using f assms(5,6) by (simp add: room_def min_def)
  have m: "maxFilesError p \<notin> set (errors (state r))"
    using er maxFilesError_not_validation [of p "nextUrl st" batch] by (simp add: v_def)
  have d: "\<forall>g \<in> set (drop (nat room) (acceptedFiles v)).
             g \<notin> set (rejectedFiles v) \<and> annotate g \<notin> set (rejectedFiles v)
             \<and> error g = None"
  proof
    fix g assume "g \<in> set (drop (nat room) (acceptedFiles v))"
    then have a: "g \<in> set (acceptedFiles (validateSelectedFiles p (nextUrl st) batch))"
      unfolding v_def by (rule in_set_dropD)
    then have "error g = None" by (rule accepted_error)
    moreover from this have "g \<notin> set (rejectedFiles v)"
      using rejected_error [of g p "nextUrl st" batch] by (auto simp: v_def)
    moreover have "annotate g \<notin> set (rejectedFiles v)"
      using a annotated_not_rejected by (simp add: v_def)
    ultimately show "g \<notin> set (rejectedFiles v) \<and> annotate g \<notin> set (rejectedFiles v)
             \<and> error g = None" by blast
  qed
  have no: "OnFilesRejected (map annotate (acceptedFiles v)) \<notin> set (events r)"
  proof
    assume "OnFilesRejected (map annotate (acceptedFiles v)) \<in> set (events r)"
    then have "OnFilesRejected (map annotate (acceptedFiles v)) \<in> set (urlEvents v)
               \<or> OnFilesRejected (map annotate (acceptedFiles v)) \<in> set (rejectedCall p v)"
      using ev by auto
    then have "map annotate (acceptedFiles v) = rejectedFiles v"
      using urlEvents_create [of _ p "nextUrl st" batch] rejectedCall_only_rejected [of _ p v]
      by (auto simp: v_def)
    moreover obtain a as where "acceptedFiles v = a # as"
      using ne by (cases "acceptedFiles v") auto
    ultimately have "annotate a \<in> set (rejectedFiles v)" "a \<in> set (acceptedFiles v)"
      by (metis list.set_intros(1) list.simps(9))+
    then show False
      using annotated_not_rejected [of a p "nextUrl st" batch] by (simp add: v_def)
  qed
  from f l ev er m d no show ?thesis by blast
qed

section \<open>Removal\<close>

lemma filterIndex_beyond:
  assumes "int (length fs) \<le> index"
  shows "filterIndex fs index = fs"
proof -
  have "\<forall>x \<in> set (enumerate 0 fs). (\<lambda>(i, f). int i \<noteq> index) x"
    using assms by (auto simp: in_set_enumerate_eq)
  then have "filter (\<lambda>(i, f). int i \<noteq> index) (enumerate 0 fs) = enumerate 0 fs"
    by (simp only: filter_True)
  then show ?thesis
    by (simp add: filterIndex_def)
qed

lemma fileAt_beyond: "int (length fs) \<le> index \<Longrightarrow> fileAt fs index = None"
  by (simp add: fileAt_def)

text \<open>
  C2 (amended). For an index at or beyond the length of \<open>files\<close>, \<open>removeFile\<close> revokes
  nothing, leaves the contents of \<open>files\<close> and \<open>errors\<close> as they were, and calls
  \<open>onFilesChanged\<close> once with the unchanged list.
\<close>

theorem C2_removeFile_beyond_length:
  assumes "int (length (files st)) \<le> index"
  shows "files (state (removeFile st index)) = files st
       \<and> errors (state (removeFile st index)) = errors st
       \<and> events (removeFile st index) = [OnFilesChanged (files st)]"
  using assms by (simp add: removeFile_def Let_def fileAt_beyond filterIndex_beyond)


section \<open>The file limit\<close>

lemma length_filterIndex: "length (filterIndex fs i) \<le> length fs"
proof -
  have "length (filter (\<lambda>(j, f). int j \<noteq> i) (enumerate 0 fs)) \<le> length (enumerate 0 fs)"
    by (rule length_filter_le)
  then show ?thesis by (simp add: filterIndex_def)
qed

lemma handleFiles_length:
  assumes "int (length (files st)) \<le> maxFiles p"
  shows "int (length (files (state (handleFiles p st cs)))) \<le> maxFiles p"
proof -
  let ?v = "validateSelectedFiles p (nextUrl st) cs"
  show ?thesis
  proof (cases "acceptedFiles ?v = []")
    case True
    then show ?thesis using assms by (simp add: handleFiles_def Let_def)
  next
    case False
    then show ?thesis using assms
      by (auto simp: handleFiles_def getNewFiles_def Let_def min_def split: if_splits)
  qed
qed

lemma perform_length:
  assumes "int (length (files st)) \<le> maxFiles p" and "withinLimit p a"
  shows "int (length (files (state (perform p st a)))) \<le> maxFiles p"
proof (cases a)
  case (HandleFiles cs)
  then show ?thesis using assms(1) by (simp add: handleFiles_length)
next
  case (RemoveFile i)
  have "length (filterIndex (files st) i) \<le> length (files st)"
    by (rule length_filterIndex)
  then show ?thesis using RemoveFile assms(1) by (simp add: removeFile_def Let_def)
next
  case (CurrentFiles fs)
  then show ?thesis using assms(2) by (simp add: initializeFiles_def Let_def)
qed

lemma run_length:
  assumes "int (length (files st)) \<le> maxFiles p" and "list_all (withinLimit p) as"
  shows "int (length (files (fst (run p st as)))) \<le> maxFiles p"
  using assms
proof (induction as arbitrary: st)
  case Nil
  then show ?case by simp
next
  case (Cons a as)
  have "int (length (files (fst (dispatch p st a)))) \<le> maxFiles p"
    using Cons.prems by (simp add: dispatch_def Let_def perform_length)
  moreover have "list_all (withinLimit p) as"
    using Cons.prems by simp
  ultimately have "int (length (files (fst (run p (fst (dispatch p st a)) as)))) \<le> maxFiles p"
    by (rule Cons.IH)
  then show ?case
    by (simp add: split_beta Let_def)
qed

text \<open>
  C6 (amended). From a state whose \<open>files\<close> list is no longer than \<open>maxFiles\<close> (the
  initial empty list, for \<open>maxFiles \<ge> 0\<close>), every state reached by \<open>handleFiles\<close>,
  by \<open>removeFile\<close>, and by adopting \<open>currentFiles\<close> sequences that are themselves no
  longer than \<open>maxFiles\<close>, keeps \<open>files\<close> within \<open>maxFiles\<close>. The adoption effect
  does not look at \<open>maxFiles\<close>: from any state it sets \<open>files\<close> to the supplied
  sequence mapped entry by entry through \<open>initializeFile\<close> (an image-typed entry without
  preview is copied with the empty preview, every other entry is kept), a list of
  exactly the supplied length.
\<close>

theorem C6_limit_preserved:
  "(int (length (files st)) \<le> maxFiles p \<and> list_all (withinLimit p) as
      \<longrightarrow> int (length (files (fst (run p st as)))) \<le> maxFiles p)
   \<and> files (fst (dispatch p st (CurrentFiles cs))) = map initializeFile cs
   \<and> length (files (fst (dispatch p st (CurrentFiles cs)))) = length cs"
  using run_length [of st p as]
  by (simp add: dispatch_def initializeFiles_def Let_def)

section \<open>Sample runs\<close>

text \<open>
  Evaluation of the model on the sample inputs. The URLs and entries are kept symbolic in
  the counter where a run is evaluated step by step.
\<close>

lemma createObjectURL_small:
  "createObjectURL 0 = ''blob:0''" "createObjectURL 1 = ''blob:1''"
  "createObjectURL 2 = ''blob:2''" "createObjectURL 3 = ''blob:3''"
  "createObjectURL 4 = ''blob:4''"
  "createObjectURL (Suc 0) = ''blob:1''" "createObjectURL (Suc (Suc 0)) = ''blob:2''"
  "createObjectURL (Suc (Suc (Suc 0))) = ''blob:3''"
  "createObjectURL (Suc (Suc (Suc (Suc 0)))) = ''blob:4''"
  by (simp_all add: createObjectURL_def digits.simps)

lemma validateFile_png: "validateFile (imageProps n) (png s) = None"
  by (simp add: validateFile_def imageProps_def png_def mapType_def typeMap_def
                str_startsWith_def)

lemma numberToString_5MiB:
  "numberToString (bytesToUnit (5 * 1024 * 1024) (getAppropriateUnit (5 * 1024 * 1024))) = ''5''"
  by (simp add: getAppropriateUnit_def bytesToUnit_MB numberToString_def digits.simps)

lemma validateFile_hugePng:
  \<open>validateFile (imageProps n) hugePng
     = Some ''The file "huge.png" exceeds the maximum size of 5 MB.''\<close>
  using numberToString_5MiB
  by (simp add: validateFile_def imageProps_def hugePng_def Let_def dq_def getAppropriateUnit_def)

lemma validateFile_hugeClip:
  \<open>validateFile (imageProps n) hugeClip
     = Some ''The file "huge.mp4" exceeds the maximum size of 5 MB.''\<close>
  using numberToString_5MiB
  by (simp add: validateFile_def imageProps_def hugeClip_def Let_def dq_def getAppropriateUnit_def)

lemma validateFile_clip_x_audio:
  \<open>validateFile videoProps (clip ''video/x-audio'')
     = Some ''The file type "video/x-audio" is not accepted.''\<close>
  by (simp add: validateFile_def videoProps_def clip_def Let_def dq_def mapType_def typeMap_def
                str_startsWith_def)

lemma png_image: "str_startsWith (ftype (png s)) ''image/''"
  by (simp add: png_def str_startsWith_def)

lemma step_png:
  "validateStep (imageProps n) v (png s) =
     v\<lparr>acceptedFiles := acceptedFiles v @ [selected s (urlCounter v)],
       urlCounter := urlCounter v + 1,
       urlEvents := urlEvents v @ [CreateObjectURL (createObjectURL (urlCounter v))]\<rparr>"
  by (simp add: validateStep_def validateFile_png png_image selected_def)

lemma step_hugePng:
  \<open>validateStep (imageProps n) v hugePng =
     v\<lparr>rejectedFiles := rejectedFiles v
         @ [(spread hugePng)\<lparr>error := Some ''The file "huge.png" exceeds the maximum size of 5 MB.''\<rparr>],
       errorMessages := errorMessages v @ [''The file "huge.png" exceeds the maximum size of 5 MB.'']\<rparr>\<close>
  by (simp add: validateStep_def validateFile_hugePng)

lemma imageProps_simps:
  "maxFiles (imageProps n) = n" "onFilesRejected (imageProps n)"
  "maxSize (imageProps n) = 5 * 1024 * 1024" "acceptedType (imageProps n) = ''image/*''"
  by (simp_all add: imageProps_def)

lemma revokePreview_selected:
  "revokePreview (selected s k) = [RevokeObjectURL (createObjectURL k)]"
  by (simp add: revokePreview_def truthy_def selected_def createObjectURL_def)

lemma holding_simps:
  "files (holding fs k) = fs" "errors (holding fs k) = []" "nextUrl (holding fs k) = k"
  by (simp_all add: holding_def)

lemma batch_huge_b_c: \<open>validateSelectedFiles (imageProps n) k [hugePng, png ''b.png'', png ''c.png'']
  = \<lparr>acceptedFiles = [selected ''b.png'' k, selected ''c.png'' (k + 1)],
     rejectedFiles = [(spread hugePng)\<lparr>error := Some ''The file "huge.png" exceeds the maximum size of 5 MB.''\<rparr>],
     errorMessages = [''The file "huge.png" exceeds the maximum size of 5 MB.''],
     urlCounter = k + 2,
     urlEvents = [CreateObjectURL (createObjectURL k), CreateObjectURL (createObjectURL (k + 1))]\<rparr>\<close>
  by (simp add: validateSelectedFiles_def step_png step_hugePng)

lemma batch_huge_c: \<open>validateSelectedFiles (imageProps n) k [hugePng, png ''c.png'']
  = \<lparr>acceptedFiles = [selected ''c.png'' k],
     rejectedFiles = [(spread hugePng)\<lparr>error := Some ''The file "huge.png" exceeds the maximum size of 5 MB.''\<rparr>],
     errorMessages = [''The file "huge.png" exceeds the maximum size of 5 MB.''],
     urlCounter = k + 1,
     urlEvents = [CreateObjectURL (createObjectURL k)]\<rparr>\<close>
  by (simp add: validateSelectedFiles_def step_png step_hugePng)

lemma batch_c_d_e: \<open>validateSelectedFiles (imageProps n) k [png ''c.png'', png ''d.png'', png ''e.png'']
  = \<lparr>acceptedFiles = [selected ''c.png'' k, selected ''d.png'' (k + 1), selected ''e.png'' (k + 2)],
     rejectedFiles = [],
     errorMessages = [],
     urlCounter = k + 3,
     urlEvents = [CreateObjectURL (createObjectURL k), CreateObjectURL (createObjectURL (k + 1)),
                  CreateObjectURL (createObjectURL (k + 2))]\<rparr>\<close>
  by (simp add: validateSelectedFiles_def step_png)

lemma maxFilesError_2: "maxFilesError (imageProps 2) = ''You can upload a maximum of 2 file(s).''"
  by (simp add: maxFilesError_def imageProps_simps intToString_def digits.simps)

lemmas run_eval =
  lifetime_def teardown_def dispatch_def Let_def handleFiles_def removeFile_def
  initializeFiles_def initializeFile_def validateSelectedFiles_def step_png step_hugePng
  getNewFiles_def rejectedCall_def revokePreviews_def revokePreview_def truthy_def fileAt_def
  filterIndex_def imageProps_simps initial_def holding_def selected_def
  createObjectURL_small

text \<open>
  C1. Three runs of one hook instance, each followed by unmounting. Selecting an image
  and removing it revokes its URL twice: once in \<open>removeFile\<close>, once more by the cleanup
  of the effect on \<open>files\<close>. With \<open>maxFiles = 2\<close>, selecting a second image makes that
  cleanup revoke the URL of the first image while its entry is still in \<open>files\<close>
  (unmounting revokes it again). Selecting three images at once creates three URLs,
  keeps two entries, and never revokes the URL of the third.
\<close>

theorem C1_preview_revoked_twice_or_never:
  "lifetime (imageProps 1) [HandleFiles [png ''a.png''], RemoveFile 0]
     = [CreateObjectURL ''blob:0'', OnFilesChanged [selected ''a.png'' 0],
        RevokeObjectURL ''blob:0'', OnFilesChanged [],
        RevokeObjectURL ''blob:0'']
   \<and> run (imageProps 2) initial [HandleFiles [png ''a.png''], HandleFiles [png ''b.png'']]
     = (\<lparr>files = [selected ''a.png'' 0, selected ''b.png'' 1], errors = [], nextUrl = 2\<rparr>,
        [CreateObjectURL ''blob:0'', OnFilesChanged [selected ''a.png'' 0],
         CreateObjectURL ''blob:1'',
         OnFilesChanged [selected ''a.png'' 0, selected ''b.png'' 1],
         RevokeObjectURL ''blob:0''])
   \<and> lifetime (imageProps 2) [HandleFiles [png ''a.png'', png ''b.png'', png ''c.png'']]
     = [CreateObjectURL ''blob:0'', CreateObjectURL ''blob:1'', CreateObjectURL ''blob:2'',
        OnFilesChanged [selected ''a.png'' 0, selected ''b.png'' 1],
        RevokeObjectURL ''blob:0'', RevokeObjectURL ''blob:1'']"
  by (simp add: run_eval)

text \<open>
  C2, at a stale index: the list holds one file, \<open>removeFile 5\<close> still calls
  \<open>onFilesChanged\<close>.
\<close>

theorem C2_callback_still_fires:
  "int (length (files (holding [selected ''a.png'' 0] 1))) \<le> 5
   \<and> events (removeFile (holding [selected ''a.png'' 0] 1) 5)
       = [OnFilesChanged [selected ''a.png'' 0]]"
  by (simp add: removeFile_def Let_def holding_simps fileAt_def filterIndex_def)

text \<open>
  C2 (amended) at the index equal to the length of the list.
\<close>

theorem C2_removeFile_beyond_length_witness:
  "int (length (files (holding [selected ''a.png'' 0] 1))) \<le> 1
   \<and> files (state (removeFile (holding [selected ''a.png'' 0] 1) 1)) = [selected ''a.png'' 0]
   \<and> errors (state (removeFile (holding [selected ''a.png'' 0] 1) 1)) = []
   \<and> events (removeFile (holding [selected ''a.png'' 0] 1) 1)
       = [OnFilesChanged [selected ''a.png'' 0]]"
  using C2_removeFile_beyond_length [of "holding [selected ''a.png'' 0] 1" 1]
  by (simp add: holding_simps)

text \<open>
  C3 with one file selected and a batch of an oversized file and two valid ones: the
  first valid one replaces the selection, the old URL is revoked.
\<close>

theorem C3_single_file_replaces_witness:
  \<open>maxFiles (imageProps 1) = 1
   \<and> acceptedFiles (validateSelectedFiles (imageProps 1)
        (nextUrl (holding [selected ''a.png'' 0] 1)) [hugePng, png ''b.png'', png ''c.png''])
       \<noteq> []
   \<and> files (state (handleFiles (imageProps 1) (holding [selected ''a.png'' 0] 1)
                      [hugePng, png ''b.png'', png ''c.png'']))
       = [selected ''b.png'' 1]
   \<and> events (handleFiles (imageProps 1) (holding [selected ''a.png'' 0] 1)
                [hugePng, png ''b.png'', png ''c.png''])
       = [CreateObjectURL ''blob:1'', CreateObjectURL ''blob:2'',
          RevokeObjectURL ''blob:0'',
          OnFilesChanged [selected ''b.png'' 1],
          OnFilesRejected
            [(spread hugePng)\<lparr>error :=
               Some ''The file "huge.png" exceeds the maximum size of 5 MB.''\<rparr>]]
   \<and> errors (state (handleFiles (imageProps 1) (holding [selected ''a.png'' 0] 1)
                      [hugePng, png ''b.png'', png ''c.png'']))
       = [''The file "huge.png" exceeds the maximum size of 5 MB.'']\<close>
proof -
  have m: "maxFiles (imageProps 1) = 1"
    by (simp add: imageProps_def)
  have a: "acceptedFiles (validateSelectedFiles (imageProps 1)
        (nextUrl (holding [selected ''a.png'' 0] 1)) [hugePng, png ''b.png'', png ''c.png''])
       \<noteq> []"
    by (simp add: holding_simps batch_huge_b_c)
  from C3_single_file_replaces [OF m, of "holding [selected ''a.png'' 0] 1"
         "[hugePng, png ''b.png'', png ''c.png'']"] m a show ?thesis
    by (simp add: holding_simps batch_huge_b_c revokePreviews_def revokePreview_selected rejectedCall_def
                  imageProps_simps createObjectURL_small)
qed

text \<open>
  C4, with two of two files selected and a batch of an oversized file and a valid one:
  the only callback is the count rejection of the valid file; the oversized file, which
  failed validation, is delivered by no call.
\<close>

theorem C4_invalid_files_not_delivered:
  \<open>rejectedFiles (validateSelectedFiles (imageProps 2) 2 [hugePng, png ''c.png''])
     = [(spread hugePng)\<lparr>error :=
          Some ''The file "huge.png" exceeds the maximum size of 5 MB.''\<rparr>]
   \<and> events (handleFiles (imageProps 2)
               (holding [selected ''a.png'' 0, selected ''b.png'' 1] 2)
               [hugePng, png ''c.png''])
     = [CreateObjectURL ''blob:2'', OnFilesRejected [annotate (selected ''c.png'' 2)]]\<close>
  by (simp add: run_eval)

text \<open>
  C4 (amended) on the same input.
\<close>

theorem C4_no_room_rejects_batch_witness:
  \<open>maxFiles (imageProps 2) > 1
   \<and> maxFiles (imageProps 2)
       - int (length (files (holding [selected ''a.png'' 0, selected ''b.png'' 1] 2))) \<le> 0
   \<and> acceptedFiles (validateSelectedFiles (imageProps 2)
         (nextUrl (holding [selected ''a.png'' 0, selected ''b.png'' 1] 2))
         [hugePng, png ''c.png'']) \<noteq> []
   \<and> files (state (handleFiles (imageProps 2)
               (holding [selected ''a.png'' 0, selected ''b.png'' 1] 2)
               [hugePng, png ''c.png'']))
       = [selected ''a.png'' 0, selected ''b.png'' 1]
   \<and> errors (state (handleFiles (imageProps 2)
               (holding [selected ''a.png'' 0, selected ''b.png'' 1] 2)
               [hugePng, png ''c.png'']))
       = [''The file "huge.png" exceeds the maximum size of 5 MB.'',
          ''You can upload a maximum of 2 file(s).'']
   \<and> events (handleFiles (imageProps 2)
               (holding [selected ''a.png'' 0, selected ''b.png'' 1] 2)
               [hugePng, png ''c.png''])
       = [CreateObjectURL ''blob:2'', OnFilesRejected [annotate (selected ''c.png'' 2)]]\<close>
proof -
  have m: "maxFiles (imageProps 2) > 1"
    by (simp add: imageProps_simps)
  have r: "maxFiles (imageProps 2)
       - int (length (files (holding [selected ''a.png'' 0, selected ''b.png'' 1] 2))) \<le> 0"
    by (simp add: imageProps_simps holding_simps)
  have a: "acceptedFiles (validateSelectedFiles (imageProps 2)
         (nextUrl (holding [selected ''a.png'' 0, selected ''b.png'' 1] 2))
         [hugePng, png ''c.png'']) \<noteq> []"
    by (simp add: holding_simps batch_huge_c)
  from C4_no_room_rejects_batch [OF m r a] m r a show ?thesis
    by (simp add: holding_simps batch_huge_c imageProps_simps maxFilesError_2 createObjectURL_small)
qed

text \<open>
  C5 with two of three files selected and three valid candidates: one is appended, two
  are dropped, and \<open>onFilesRejected\<close> is not called.
\<close>

theorem C5_partial_room_appends_prefix_witness:
  \<open>maxFiles (imageProps 3) > 1
   \<and> 0 < maxFiles (imageProps 3)
          - int (length (files (holding [selected ''a.png'' 0, selected ''b.png'' 1] 2)))
   \<and> maxFiles (imageProps 3)
          - int (length (files (holding [selected ''a.png'' 0, selected ''b.png'' 1] 2)))
       < int (length (acceptedFiles (validateSelectedFiles (imageProps 3)
           (nextUrl (holding [selected ''a.png'' 0, selected ''b.png'' 1] 2))
           [png ''c.png'', png ''d.png'', png ''e.png''])))
   \<and> files (state (handleFiles (imageProps 3)
               (holding [selected ''a.png'' 0, selected ''b.png'' 1] 2)
               [png ''c.png'', png ''d.png'', png ''e.png'']))
       = [selected ''a.png'' 0, selected ''b.png'' 1, selected ''c.png'' 2]
   \<and> events (handleFiles (imageProps 3)
               (holding [selected ''a.png'' 0, selected ''b.png'' 1] 2)
               [png ''c.png'', png ''d.png'', png ''e.png''])
       = [CreateObjectURL ''blob:2'', CreateObjectURL ''blob:3'', CreateObjectURL ''blob:4'',
          OnFilesChanged [selected ''a.png'' 0, selected ''b.png'' 1, selected ''c.png'' 2]]
   \<and> errors (state (handleFiles (imageProps 3)
               (holding [selected ''a.png'' 0, selected ''b.png'' 1] 2)
               [png ''c.png'', png ''d.png'', png ''e.png''])) = []\<close>
proof -
  have m: "maxFiles (imageProps 3) > 1"
    by (simp add: imageProps_simps)
  have r: "0 < maxFiles (imageProps 3)
          - int (length (files (holding [selected ''a.png'' 0, selected ''b.png'' 1] 2)))"
    by (simp add: imageProps_simps holding_simps)
  have a: "maxFiles (imageProps 3)
          - int (length (files (holding [selected ''a.png'' 0, selected ''b.png'' 1] 2)))
       < int (length (acceptedFiles (validateSelectedFiles (imageProps 3)
           (nextUrl (holding [selected ''a.png'' 0, selected ''b.png'' 1] 2))
           [png ''c.png'', png ''d.png'', png ''e.png''])))"
    by (simp add: imageProps_simps holding_simps batch_c_d_e)
  from C5_partial_room_appends_prefix [OF m r a] m r a show ?thesis
    by (simp add: holding_simps batch_c_d_e imageProps_simps rejectedCall_def createObjectURL_small)
qed

text \<open>
  C6, adopting two files under \<open>maxFiles = 1\<close>: the list is longer than the limit.
\<close>

theorem C6_adoption_exceeds_limit:
  "\<not> int (length (files (fst (run (imageProps 1) initial
         [CurrentFiles [selected ''a.png'' 0, selected ''b.png'' 1]]))))
       \<le> maxFiles (imageProps 1)"
  by (simp add: dispatch_def Let_def initializeFiles_def imageProps_simps)

text \<open>
  C6 (amended) on a selection, a removal and an adoption within the limit, and on the
  adoption of an entry with a preview (kept) and of an image-typed entry without one
  (copied with the empty preview).
\<close>

theorem C6_limit_preserved_witness:
  "int (length (files initial)) \<le> maxFiles (imageProps 2)
   \<and> list_all (withinLimit (imageProps 2))
        [HandleFiles [png ''a.png'', png ''b.png'', png ''c.png''], RemoveFile 0,
         CurrentFiles [selected ''x.png'' 7]]
   \<and> int (length (files (fst (run (imageProps 2) initial
        [HandleFiles [png ''a.png'', png ''b.png'', png ''c.png''], RemoveFile 0,
         CurrentFiles [selected ''x.png'' 7]]))))
       \<le> maxFiles (imageProps 2)
   \<and> files (fst (dispatch (imageProps 2) initial
        (CurrentFiles [selected ''x.png'' 7,
                       (spread (png ''y.png''))\<lparr>ownType := Some ''image/png''\<rparr>])))
       = [selected ''x.png'' 7,
          (spread (png ''y.png''))\<lparr>ownType := Some ''image/png'', preview := Some []\<rparr>]"
proof -
  have i: "int (length (files initial)) \<le> maxFiles (imageProps 2)"
    by (simp add: initial_def imageProps_simps)
  have l: "list_all (withinLimit (imageProps 2))
        [HandleFiles [png ''a.png'', png ''b.png'', png ''c.png''], RemoveFile 0,
         CurrentFiles [selected ''x.png'' 7]]"
    by (simp add: imageProps_simps)
  have m: "map initializeFile
               [selected ''x.png'' 7,
                (spread (png ''y.png''))\<lparr>ownType := Some ''image/png''\<rparr>]
             = [selected ''x.png'' 7,
                (spread (png ''y.png''))\<lparr>ownType := Some ''image/png'', preview := Some []\<rparr>]"
    by (simp add: initializeFile_def spreadEntry_def truthy_def typeOf_def selected_def
                  spread_def createObjectURL_def str_startsWith_def)
  from C6_limit_preserved [of initial "imageProps 2"
         "[HandleFiles [png ''a.png'', png ''b.png'', png ''c.png''], RemoveFile 0,
           CurrentFiles [selected ''x.png'' 7]]"
         "[selected ''x.png'' 7,
           (spread (png ''y.png''))\<lparr>ownType := Some ''image/png''\<rparr>]"] i l
  show ?thesis
    unfolding m by blast
qed

text \<open>
  C7 on an oversized video under an image-only configuration with a 5 MiB limit (the size
  message in MB, not the type message), and on an image of 2 GiB under a limit of 1.5 GiB
  (the size message in GB).
\<close>

theorem C7_oversize_rejected_witness:
  \<open>fsize hugeClip > maxSize (imageProps 1)
   \<and> validateFile (imageProps 1) hugeClip
       = Some ''The file "huge.mp4" exceeds the maximum size of 5 MB.''
   \<and> ''The file "huge.mp4" exceeds the maximum size of 5 MB.''
       \<in> set (errors (state (handleFiles (imageProps 1) initial
                                 ([png ''a.png''] @ hugeClip # [png ''b.png'']))))
   \<and> files (state (handleFiles (imageProps 1) initial
                     ([png ''a.png''] @ hugeClip # [png ''b.png''])))
       = files (state (handleFiles (imageProps 1) initial ([png ''a.png''] @ [png ''b.png''])))
   \<and> fsize gigaPng > maxSize gigaProps
   \<and> validateFile gigaProps gigaPng
       = Some ''The file "giga.png" exceeds the maximum size of 1.5 GB.''\<close>
proof -
  have s: "fsize hugeClip > maxSize (imageProps 1)"
    by (simp add: hugeClip_def imageProps_simps)
  have g: "fsize gigaPng > maxSize gigaProps"
    by (simp add: gigaPng_def gigaProps_def)
  have n: \<open>''The file '' @ dq @ fname hugeClip @ dq @ '' exceeds the maximum size of ''
            @ (if 2 ^ 30 \<le> maxSize (imageProps 1)
               then numberToString (bytesToUnit (maxSize (imageProps 1)) GB) @ '' GB.''
               else numberToString (bytesToUnit (maxSize (imageProps 1)) MB) @ '' MB.'')
           = ''The file "huge.mp4" exceeds the maximum size of 5 MB.''\<close>
    by (simp add: imageProps_simps hugeClip_def dq_def bytesToUnit_MB numberToString_def
                  digits.simps)
  have k: \<open>''The file '' @ dq @ fname gigaPng @ dq @ '' exceeds the maximum size of ''
            @ (if 2 ^ 30 \<le> maxSize gigaProps
               then numberToString (bytesToUnit (maxSize gigaProps) GB) @ '' GB.''
               else numberToString (bytesToUnit (maxSize gigaProps) MB) @ '' MB.'')
           = ''The file "giga.png" exceeds the maximum size of 1.5 GB.''\<close>
    by (simp add: gigaProps_def gigaPng_def dq_def bytesToUnit_GB numberToString_def
                  digits.simps)
  from C7_oversize_rejected [OF s, of initial "[png ''a.png'']" "[png ''b.png'']"]
       C7_oversize_rejected [OF g, of initial "[]" "[]"] s g
  show ?thesis
    unfolding n k by blast
qed

text \<open>
  C8: the mime type \<open>video/x-audio\<close> has top-level type \<open>video\<close> but is classified
  Audio, so a video-only configuration rejects it; and an oversized video under an
  image-only configuration is rejected with the size message, which does not state its
  mime type.
\<close>

theorem C8_substring_decides_category:
  \<open>mapType ''video/x-audio'' = Audio
   \<and> validateFile videoProps (clip ''video/x-audio'')
       = Some ''The file type "video/x-audio" is not accepted.''
   \<and> FileType_value (mapType (ftype hugeClip)) \<noteq> acceptedType (imageProps 1)
   \<and> validateFile (imageProps 1) hugeClip
       = Some ''The file "huge.mp4" exceeds the maximum size of 5 MB.''\<close>
  using validateFile_clip_x_audio validateFile_hugeClip
  by (simp add: mapType_def typeMap_def str_startsWith_def hugeClip_def imageProps_simps)

text \<open>
  C8 (amended) on a small \<open>video/mp4\<close> file under an image-only configuration.
\<close>

theorem C8_category_and_type_rejection_witness:
  \<open>fsize (clip ''video/mp4'') \<le> maxSize (imageProps 1)
   \<and> FileType_value (mapType (ftype (clip ''video/mp4''))) \<noteq> acceptedType (imageProps 1)
   \<and> mapType ''video/mp4'' = Video
   \<and> validateFile (imageProps 1) (clip ''video/mp4'')
       = Some ''The file type "video/mp4" is not accepted.''
   \<and> ''The file type "video/mp4" is not accepted.''
       \<in> set (errors (state (handleFiles (imageProps 1) initial
                                 ([png ''a.png''] @ clip ''video/mp4'' # []))))
   \<and> files (state (handleFiles (imageProps 1) initial
                     ([png ''a.png''] @ clip ''video/mp4'' # [])))
       = files (state (handleFiles (imageProps 1) initial ([png ''a.png''] @ [])))\<close>
proof -
  have s: "fsize (clip ''video/mp4'') \<le> maxSize (imageProps 1)"
    by (simp add: clip_def imageProps_simps)
  have k: "\<not> (str_includes ''video/mp4'' ''application'' \<or> str_includes ''video/mp4'' ''text'')"
          "\<not> str_includes ''video/mp4'' ''image''" "\<not> str_includes ''video/mp4'' ''audio''"
          "str_includes ''video/mp4'' ''video''"
    by (simp_all add: str_startsWith_def)
  have n: \<open>''The file type '' @ dq @ ftype (clip ''video/mp4'') @ dq @ '' is not accepted.''
           = ''The file type "video/mp4" is not accepted.''\<close>
    by (simp add: clip_def dq_def)
  note t = C8_category_and_type_rejection
             [where t = "''video/mp4''" and c = "clip ''video/mp4''" and p = "imageProps 1"
                and st = initial and xs = "[png ''a.png'']" and ys = "[]"]
  from t k have v: "mapType ''video/mp4'' = Video"
    by simp
  then have d: "FileType_value (mapType (ftype (clip ''video/mp4''))) \<noteq> acceptedType (imageProps 1)"
    by (simp add: clip_def imageProps_simps)
  from t s d v show ?thesis
    unfolding n by blast
qed

end
